theory Spec2Isabelle
  imports Complex_Main "HOL-Library.Multiset"
begin

section \<open>JavaScript values\<close>

text \<open>
  The entry store (\<^verbatim>\<open>utilities/storage\<close>, the second document of
  \<^verbatim>\<open>permissions.ts\<close>) validates values of type \<^verbatim>\<open>any\<close>, so the model works on
  untyped JavaScript values. A number is a finite value (every double is a rational), NaN or
  one of the infinities. An object is the list of its own properties in order; a property
  is read with the first binding of its name.
\<close>

datatype jsnum = Fin rat | NaN | PosInf | NegInf

datatype jsval =
    JUndefined
  | JNull
  | JBool bool
  | JNum jsnum
  | JStr string
  | JArr "jsval list"
  | JObj "(string \<times> jsval) list"

fun is_finite :: "jsnum \<Rightarrow> bool" where
  "is_finite (Fin r) = True"
| "is_finite n = False"

text \<open>The operator \<^verbatim>\<open>typeof\<close>; \<^verbatim>\<open>typeof null\<close> is \<^verbatim>\<open>'object'\<close>, and so is an array's.\<close>

fun typeof :: "jsval \<Rightarrow> string" where
  "typeof JUndefined = ''undefined''"
| "typeof JNull = ''object''"
| "typeof (JBool b) = ''boolean''"
| "typeof (JNum n) = ''number''"
| "typeof (JStr s) = ''string''"
| "typeof (JArr xs) = ''object''"
| "typeof (JObj ps) = ''object''"

text \<open>\<^verbatim>\<open>!v\<close>: the falsy values.\<close>

fun falsy :: "jsval \<Rightarrow> bool" where
  "falsy JUndefined = True"
| "falsy JNull = True"
| "falsy (JBool b) = (\<not> b)"
| "falsy (JNum (Fin r)) = (r = 0)"
| "falsy (JNum NaN) = True"
| "falsy (JNum n) = False"
| "falsy (JStr s) = (s = [])"
| "falsy v = False"

fun isArray :: "jsval \<Rightarrow> bool" where
  "isArray (JArr xs) = True"
| "isArray v = False"

text \<open>
  Reading a named property, \<^verbatim>\<open>v[name]\<close> or \<^verbatim>\<open>v.name\<close>, for the field names of an
  entry. A missing property reads as \<^verbatim>\<open>undefined\<close>; so does one of these names on an
  array or a primitive. (On \<^verbatim>\<open>null\<close> and \<^verbatim>\<open>undefined\<close> JavaScript raises a TypeError;
  the store reads properties only behind the guard of line 120 or from validated entries.)
\<close>

fun get_prop :: "jsval \<Rightarrow> string \<Rightarrow> jsval" where
  "get_prop (JObj ps) name = (case map_of ps name of None \<Rightarrow> JUndefined | Some v \<Rightarrow> v)"
| "get_prop v name = JUndefined"

text \<open>
  The assignment \<^verbatim>\<open>obj.name = v\<close>: an existing property keeps its place, a new one is
  added at the end.
\<close>

fun assign :: "(string \<times> jsval) list \<Rightarrow> string \<Rightarrow> jsval \<Rightarrow> (string \<times> jsval) list" where
  "assign [] name v = [(name, v)]"
| "assign (p # ps) name v = (if fst p = name then (name, v) # ps else p # assign ps name v)"

fun set_prop :: "jsval \<Rightarrow> string \<Rightarrow> jsval \<Rightarrow> jsval" where
  "set_prop (JObj ps) name v = JObj (assign ps name v)"
| "set_prop w name v = w"

text \<open>
  Strict equality \<^verbatim>\<open>===\<close>. Two objects are equal only when they are the same reference;
  the store compares the \<^verbatim>\<open>id\<close> and \<^verbatim>\<open>createdAt\<close> of validated entries only, which are
  primitives.
\<close>

fun num_eq :: "jsnum \<Rightarrow> jsnum \<Rightarrow> bool" where
  "num_eq NaN m = False"
| "num_eq n NaN = False"
| "num_eq n m = (n = m)"

fun strict_eq :: "jsval \<Rightarrow> jsval \<Rightarrow> bool" where
  "strict_eq JUndefined JUndefined = True"
| "strict_eq JNull JNull = True"
| "strict_eq (JBool a) (JBool b) = (a = b)"
| "strict_eq (JNum n) (JNum m) = num_eq n m"
| "strict_eq (JStr s) (JStr t) = (s = t)"
| "strict_eq v w = False"

text \<open>Subtraction of numbers; of two finite numbers only its sign is used below.\<close>

fun js_sub :: "jsnum \<Rightarrow> jsnum \<Rightarrow> jsnum" where
  "js_sub (Fin a) (Fin b) = Fin (a - b)"
| "js_sub NaN m = NaN"
| "js_sub n NaN = NaN"
| "js_sub PosInf PosInf = NaN"
| "js_sub NegInf NegInf = NaN"
| "js_sub PosInf m = PosInf"
| "js_sub NegInf m = NegInf"
| "js_sub n PosInf = NegInf"
| "js_sub n NegInf = PosInf"

fun positive :: "jsnum \<Rightarrow> bool" where
  "positive (Fin r) = (0 < r)"
| "positive PosInf = True"
| "positive n = False"

text \<open>
  The operand of an arithmetic operator. Conversion of a value that is not a number is not
  modelled (NaN stands for it): the store subtracts the \<^verbatim>\<open>createdAt\<close> of validated
  entries only.
\<close>

fun to_num :: "jsval \<Rightarrow> jsnum" where
  "to_num (JNum n) = n"
| "to_num v = NaN"

section \<open>Array.prototype.sort\<close>

text \<open>
  \<^verbatim>\<open>xs.sort(cmp)\<close> is a stable sort: \<open>a\<close> stays before \<open>b\<close> unless \<open>cmp a b\<close> is
  positive (a NaN result counts as zero). Insertion from the right is stable.
\<close>

fun sort_insert :: "('a \<Rightarrow> 'a \<Rightarrow> jsnum) \<Rightarrow> 'a \<Rightarrow> 'a list \<Rightarrow> 'a list" where
  "sort_insert cmp x [] = [x]"
| "sort_insert cmp x (y # ys) =
     (if positive (cmp x y) then y # sort_insert cmp x ys else x # y # ys)"

definition array_sort :: "('a \<Rightarrow> 'a \<Rightarrow> jsnum) \<Rightarrow> 'a list \<Rightarrow> 'a list" where
  "array_sort cmp xs = foldr (sort_insert cmp) xs []"

section \<open>JSON\<close>

text \<open>
  What \<^verbatim>\<open>JSON.stringify\<close> prints of a value, as the value that \<^verbatim>\<open>JSON.parse\<close> reads
  back: a number that is not finite is printed as \<^verbatim>\<open>null\<close>, \<^verbatim>\<open>undefined\<close> is printed
  as \<^verbatim>\<open>null\<close> inside an array, and a property whose value is \<^verbatim>\<open>undefined\<close> is left out.
\<close>

fun undefined_to_null :: "jsval \<Rightarrow> jsval" where
  "undefined_to_null JUndefined = JNull"
| "undefined_to_null v = v"

primrec to_json :: "jsval \<Rightarrow> jsval" where
  "to_json JUndefined = JUndefined"
| "to_json JNull = JNull"
| "to_json (JBool b) = JBool b"
| "to_json (JNum n) = (if is_finite n then JNum n else JNull)"
| "to_json (JStr s) = JStr s"
| "to_json (JArr xs) = JArr (map undefined_to_null (map to_json xs))"
| "to_json (JObj ps) =
     JObj (filter (\<lambda>p. snd p \<noteq> JUndefined) (map (map_prod id to_json) ps))"

text \<open>The values that \<^verbatim>\<open>JSON.stringify\<close> prints back as they are.\<close>

primrec is_json :: "jsval \<Rightarrow> bool" where
  "is_json JUndefined = False"
| "is_json JNull = True"
| "is_json (JBool b) = True"
| "is_json (JNum n) = is_finite n"
| "is_json (JStr s) = True"
| "is_json (JArr xs) = list_all id (map is_json xs)"
| "is_json (JObj ps) = list_all snd (map (map_prod id is_json) ps)"

text \<open>
  The values that \<^verbatim>\<open>JSON.parse\<close> returns: the values above, and those with an infinity
  in them, since a number literal beyond the range of a double (\<^verbatim>\<open>1e999\<close>) is read as
  an infinity. It never returns \<^verbatim>\<open>undefined\<close> or NaN.
\<close>

fun is_number :: "jsnum \<Rightarrow> bool" where
  "is_number NaN = False"
| "is_number n = True"

primrec is_parsed :: "jsval \<Rightarrow> bool" where
  "is_parsed JUndefined = False"
| "is_parsed JNull = True"
| "is_parsed (JBool b) = True"
| "is_parsed (JNum n) = is_number n"
| "is_parsed (JStr s) = True"
| "is_parsed (JArr xs) = list_all id (map is_parsed xs)"
| "is_parsed (JObj ps) = list_all snd (map (map_prod id is_parsed) ps)"

text \<open>
  The strings kept by the backend, up to what the store can observe of them: the empty
  string, a string that is not JSON, or a JSON text, given by the value that
  \<^verbatim>\<open>JSON.parse\<close> reads from it.
\<close>

datatype raw = Empty | Malformed | Doc jsval

datatype exn = BackendFault string | SyntaxError | Error string

fun JSON_parse :: "raw \<Rightarrow> exn + jsval" where
  "JSON_parse (Doc v) = (if is_parsed v then Inr v else Inl SyntaxError)"
| "JSON_parse t = Inl SyntaxError"

definition JSON_stringify :: "jsval \<Rightarrow> raw" where
  "JSON_stringify v = Doc (to_json v)"

section \<open>The persistence backend\<close>

text \<open>
  AsyncStorage is an external collaborator: three operations on string keys, each of which
  may reject. A backend is any such triple over a state of its own; \<open>Inl\<close> is a rejected
  promise.
\<close>

record 's backend =
  getItem :: "string \<Rightarrow> 's \<Rightarrow> (exn + raw option) \<times> 's"
  setItem :: "string \<Rightarrow> raw \<Rightarrow> 's \<Rightarrow> (exn + unit) \<times> 's"
  removeItem :: "string \<Rightarrow> 's \<Rightarrow> (exn + unit) \<times> 's"

text \<open>
  The backend that keeps what it is given and never rejects. It counts the writes it
  receives, so that an operation that writes nothing leaves the whole state as it was.
\<close>

record storage =
  items :: "string \<Rightarrow> raw option"
  writes :: nat

definition reliable :: "storage backend" where
  "reliable =
     \<lparr> getItem = (\<lambda>key s. (Inr (items s key), s)),
       setItem = (\<lambda>key v s. (Inr (), s\<lparr>items := (items s)(key \<mapsto> v), writes := Suc (writes s)\<rparr>)),
       removeItem = (\<lambda>key s. (Inr (), s\<lparr>items := (items s)(key := None), writes := Suc (writes s)\<rparr>)) \<rparr>"

definition empty_storage :: storage where
  "empty_storage = \<lparr> items = (\<lambda>key. None), writes = 0 \<rparr>"

definition ENTRIES :: string where
  "ENTRIES = ''@travel_diary_entries''"

section \<open>The entry validator\<close>

definition requiredFields :: "(string \<times> string) list" where
  "requiredFields =
     [(''id'', ''string''), (''imageUri'', ''string''), (''address'', ''string''),
      (''latitude'', ''number''), (''longitude'', ''number''), (''createdAt'', ''number'')]"

definition validateEntry :: "jsval \<Rightarrow> bool" where
  "validateEntry entry =
     (if falsy entry \<or> typeof entry \<noteq> ''object'' then False
      else if \<not> list_all (\<lambda>field. typeof (get_prop entry (fst field)) = snd field) requiredFields
        then False
      else if get_prop entry ''title'' \<noteq> JUndefined \<and> typeof (get_prop entry ''title'') \<noteq> ''string''
        then False
      else if get_prop entry ''notes'' \<noteq> JUndefined \<and> typeof (get_prop entry ''notes'') \<noteq> ''string''
        then False
      else if get_prop entry ''tags'' \<noteq> JUndefined \<and> \<not> isArray (get_prop entry ''tags'')
        then False
      else if get_prop entry ''weather'' \<noteq> JUndefined \<and> typeof (get_prop entry ''weather'') \<noteq> ''object''
        then False
      else True)"

definition validateEntries :: "jsval \<Rightarrow> bool" where
  "validateEntries entries =
     (case entries of
        JArr xs \<Rightarrow> list_all validateEntry xs
      | _ \<Rightarrow> False)"

section \<open>The entry store\<close>

text \<open>
  Every operation is a \<^verbatim>\<open>try\<close> block with a \<^verbatim>\<open>catch\<close> that returns the failure value.
  The block is the function named \<open>_try\<close>; its result is \<open>Inl\<close> when it throws.
\<close>

definition catch_with :: "'a \<Rightarrow> (exn + 'a) \<times> 's \<Rightarrow> (exn + 'a) \<times> 's" where
  "catch_with failure r =
     (case r of
        (Inl err, s) \<Rightarrow> (Inr failure, s)
      | (Inr a, s) \<Rightarrow> (Inr a, s))"

definition compareFn :: "jsval \<Rightarrow> jsval \<Rightarrow> jsnum" where
  "compareFn a b = js_sub (to_num (get_prop b ''createdAt'')) (to_num (get_prop a ''createdAt''))"

definition getEntries_try :: "'s backend \<Rightarrow> 's \<Rightarrow> (exn + jsval list) \<times> 's" where
  "getEntries_try B s =
     (case getItem B ENTRIES s of
        (Inl err, s') \<Rightarrow> (Inl err, s')
      | (Inr None, s') \<Rightarrow> (Inr [], s')
      | (Inr (Some entriesString), s') \<Rightarrow>
          if entriesString = Empty then (Inr [], s')
          else (case JSON_parse entriesString of
                  Inl err \<Rightarrow> (Inl err, s')
                | Inr parsedData \<Rightarrow>
                    if \<not> validateEntries parsedData then (Inr [], s')
                    else (case parsedData of
                            JArr xs \<Rightarrow> (Inr (array_sort compareFn xs), s')
                          | _ \<Rightarrow> (Inl (Error ''sort is not a function''), s'))))"

definition getEntries :: "'s backend \<Rightarrow> 's \<Rightarrow> (exn + jsval list) \<times> 's" where
  "getEntries B s = catch_with [] (getEntries_try B s)"

text \<open>
  \<^verbatim>\<open>Date.now()\<close> and \<^verbatim>\<open>Math.random().toString(36)\<close> are inputs from outside: what the
  two calls return when a save regenerates an id.
\<close>

record env =
  now :: int
  random36 :: string

definition digit36 :: "nat \<Rightarrow> char" where
  "digit36 d = ''0123456789abcdefghijklmnopqrstuvwxyz'' ! d"

text \<open>\<^verbatim>\<open>n.toString(36)\<close> of an integer.\<close>

function toString36 :: "int \<Rightarrow> string" where
  "toString36 n =
     (if n < 0 then CHR ''-'' # toString36 (- n)
      else if n < 36 then [digit36 (nat n)]
      else toString36 (n div 36) @ [digit36 (nat (n mod 36))])"
  by pat_completeness auto
termination
  by (relation "measure (\<lambda>n. if n < 0 then nat (- n) + 1 else nat n)") auto

declare toString36.simps [simp del]

definition substr :: "string \<Rightarrow> nat \<Rightarrow> nat \<Rightarrow> string" where
  "substr str start len = take len (drop start str)"

definition regenerated_id :: "env \<Rightarrow> string" where
  "regenerated_id e = ''entry_'' @ toString36 (now e) @ ''_'' @ substr (random36 e) 2 9"

definition same_id :: "jsval \<Rightarrow> jsval \<Rightarrow> bool" where
  "same_id v e = strict_eq (get_prop e ''id'') v"

text \<open>
  \<^verbatim>\<open>saveEntry\<close> assigns to \<^verbatim>\<open>entry.id\<close>, a field of the caller's object: the object as
  it is after the call is the second component of the result.
\<close>

definition saveEntry_try :: "'s backend \<Rightarrow> env \<Rightarrow> jsval \<Rightarrow> 's \<Rightarrow> (exn + bool) \<times> jsval \<times> 's" where
  "saveEntry_try B ev entry s =
     (if \<not> validateEntry entry then (Inl (Error ''Invalid entry data structure''), entry, s)
      else (case getEntries B s of
        (Inl err, s1) \<Rightarrow> (Inl err, entry, s1)
      | (Inr existingEntries, s1) \<Rightarrow>
          let entry' = (if list_ex (same_id (get_prop entry ''id'')) existingEntries
                        then set_prop entry ''id'' (JStr (regenerated_id ev)) else entry);
              updatedEntries = existingEntries @ [entry']
          in (case setItem B ENTRIES (JSON_stringify (JArr updatedEntries)) s1 of
            (Inl err, s2) \<Rightarrow> (Inl err, entry', s2)
          | (Inr u, s2) \<Rightarrow>
              (case getEntries B s2 of
                (Inl err, s3) \<Rightarrow> (Inl err, entry', s3)
              | (Inr currentEntries, s3) \<Rightarrow>
                  let wasSaved = list_ex (same_id (get_prop entry' ''id'')) currentEntries
                  in if \<not> wasSaved then (Inr False, entry', s3) else (Inr True, entry', s3)))))"

definition saveEntry :: "'s backend \<Rightarrow> env \<Rightarrow> jsval \<Rightarrow> 's \<Rightarrow> (exn + bool) \<times> jsval \<times> 's" where
  "saveEntry B ev entry s = catch_with False (saveEntry_try B ev entry s)"

definition getEntryById_try :: "'s backend \<Rightarrow> jsval \<Rightarrow> 's \<Rightarrow> (exn + jsval) \<times> 's" where
  "getEntryById_try B ident s =
     (case getEntries B s of
        (Inl err, s1) \<Rightarrow> (Inl err, s1)
      | (Inr entries, s1) \<Rightarrow>
          let entry = (case find (same_id ident) entries of None \<Rightarrow> JUndefined | Some e \<Rightarrow> e)
          in (Inr (if falsy entry then JNull else entry), s1))"

definition getEntryById :: "'s backend \<Rightarrow> jsval \<Rightarrow> 's \<Rightarrow> (exn + jsval) \<times> 's" where
  "getEntryById B ident s = catch_with JNull (getEntryById_try B ident s)"

definition removeEntry_try :: "'s backend \<Rightarrow> jsval \<Rightarrow> 's \<Rightarrow> (exn + bool) \<times> 's" where
  "removeEntry_try B ident s =
     (if falsy ident \<or> typeof ident \<noteq> ''string'' then (Inl (Error ''Invalid entry ID''), s)
      else (case getEntries B s of
        (Inl err, s1) \<Rightarrow> (Inl err, s1)
      | (Inr existingEntries, s1) \<Rightarrow>
          let entryExists = list_ex (same_id ident) existingEntries
          in if \<not> entryExists then (Inr False, s1)
             else
               let updatedEntries = filter (\<lambda>entry. \<not> same_id ident entry) existingEntries
               in (case setItem B ENTRIES (JSON_stringify (JArr updatedEntries)) s1 of
                 (Inl err, s2) \<Rightarrow> (Inl err, s2)
               | (Inr u, s2) \<Rightarrow>
                   (case getEntries B s2 of
                     (Inl err, s3) \<Rightarrow> (Inl err, s3)
                   | (Inr currentEntries, s3) \<Rightarrow>
                       let wasRemoved = \<not> list_ex (same_id ident) currentEntries
                       in if \<not> wasRemoved then (Inr False, s3) else (Inr True, s3)))))"

definition removeEntry :: "'s backend \<Rightarrow> jsval \<Rightarrow> 's \<Rightarrow> (exn + bool) \<times> 's" where
  "removeEntry B ident s = catch_with False (removeEntry_try B ident s)"

text \<open>\<^verbatim>\<open>findIndex\<close> returns -1 when no element satisfies the predicate.\<close>

fun findIndex :: "('a \<Rightarrow> bool) \<Rightarrow> 'a list \<Rightarrow> int" where
  "findIndex P [] = - 1"
| "findIndex P (x # xs) =
     (if P x then 0 else (let i = findIndex P xs in if i = - 1 then - 1 else i + 1))"

definition updateEntry_try :: "'s backend \<Rightarrow> jsval \<Rightarrow> 's \<Rightarrow> (exn + bool) \<times> 's" where
  "updateEntry_try B updatedEntry s =
     (if \<not> validateEntry updatedEntry then (Inl (Error ''Invalid entry data structure''), s)
      else (case getEntries B s of
        (Inl err, s1) \<Rightarrow> (Inl err, s1)
      | (Inr existingEntries, s1) \<Rightarrow>
          let entryIndex = findIndex (same_id (get_prop updatedEntry ''id'')) existingEntries
          in if entryIndex = - 1 then (Inr False, s1)
             else
               let existingEntries' = existingEntries[nat entryIndex := updatedEntry]
               in (case setItem B ENTRIES (JSON_stringify (JArr existingEntries')) s1 of
                 (Inl err, s2) \<Rightarrow> (Inl err, s2)
               | (Inr u, s2) \<Rightarrow>
                   (case getEntries B s2 of
                     (Inl err, s3) \<Rightarrow> (Inl err, s3)
                   | (Inr currentEntries, s3) \<Rightarrow>
                       let updatedInStorage =
                             list_ex (\<lambda>e. strict_eq (get_prop e ''id'') (get_prop updatedEntry ''id'')
                                        \<and> strict_eq (get_prop e ''createdAt'')
                                             (get_prop updatedEntry ''createdAt'')) currentEntries
                       in if \<not> updatedInStorage then (Inr False, s3) else (Inr True, s3)))))"

definition updateEntry :: "'s backend \<Rightarrow> jsval \<Rightarrow> 's \<Rightarrow> (exn + bool) \<times> 's" where
  "updateEntry B updatedEntry s = catch_with False (updateEntry_try B updatedEntry s)"





section \<open>Notions of the specification\<close>

text \<open>
  The sequence that \<^verbatim>\<open>list()\<close> returns from the reliable backend, and the collection as
  it is stored: the decoded array under the entries key, in the order of the text, when it
  is an array of valid entries. The id of an entry, and the storage after the array
  \<open>xs\<close> has been written.
\<close>

definition list_entries :: "storage \<Rightarrow> jsval list" where
  "list_entries s = (case getEntries reliable s of (Inr xs, s') \<Rightarrow> xs | (Inl err, s') \<Rightarrow> [])"

definition stored_collection :: "storage \<Rightarrow> jsval list" where
  "stored_collection s =
     (case items s ENTRIES of
        None \<Rightarrow> []
      | Some t \<Rightarrow>
          (case JSON_parse t of
             Inr (JArr xs) \<Rightarrow> if list_all validateEntry xs then xs else []
           | _ \<Rightarrow> []))"

definition entry_id :: "jsval \<Rightarrow> jsval" where
  "entry_id e = get_prop e ''id''"

definition written :: "storage \<Rightarrow> jsval list \<Rightarrow> storage" where
  "written s xs = s\<lparr>items := (items s)(ENTRIES \<mapsto> JSON_stringify (JArr xs)), writes := Suc (writes s)\<rparr>"

text \<open>The kinds of value the specification names for the optional fields.\<close>

definition present :: "jsval \<Rightarrow> string \<Rightarrow> bool" where
  "present v name = (get_prop v name \<noteq> JUndefined)"

definition is_string :: "jsval \<Rightarrow> bool" where
  "is_string v = (case v of JStr s \<Rightarrow> True | _ \<Rightarrow> False)"

definition is_sequence :: "jsval \<Rightarrow> bool" where
  "is_sequence v = (case v of JArr xs \<Rightarrow> True | _ \<Rightarrow> False)"

definition is_structured_record :: "jsval \<Rightarrow> bool" where
  "is_structured_record v = (case v of JObj ps \<Rightarrow> True | _ \<Rightarrow> False)"

definition is_scalar :: "jsval \<Rightarrow> bool" where
  "is_scalar v = (case v of JBool b \<Rightarrow> True | JNum n \<Rightarrow> True | JStr s \<Rightarrow> True | _ \<Rightarrow> False)"

text \<open>
  The order of numbers (NaN is not compared), and the order newest first of two entries
  whose \<open>createdAt\<close> are numbers; an entry is dated when its \<open>createdAt\<close> is a number other
  than NaN.
\<close>

fun num_le :: "jsnum \<Rightarrow> jsnum \<Rightarrow> bool" where
  "num_le NaN m = False"
| "num_le n NaN = False"
| "num_le NegInf m = True"
| "num_le n PosInf = True"
| "num_le (Fin a) (Fin b) = (a \<le> b)"
| "num_le n m = False"

definition newest_first :: "jsval \<Rightarrow> jsval \<Rightarrow> bool" where
  "newest_first a b =
     (case (get_prop a ''createdAt'', get_prop b ''createdAt'') of
        (JNum x, JNum y) \<Rightarrow> num_le y x
      | _ \<Rightarrow> False)"

definition dated :: "jsval \<Rightarrow> bool" where
  "dated e = (case get_prop e ''createdAt'' of JNum n \<Rightarrow> is_number n | _ \<Rightarrow> False)"

text \<open>
  An object of JavaScript has one property of each name. An entry that JSON can hold: its
  three numbers are finite.
\<close>

definition distinct_keys :: "jsval \<Rightarrow> bool" where
  "distinct_keys v = (case v of JObj ps \<Rightarrow> distinct (map fst ps) | _ \<Rightarrow> True)"

definition finite_field :: "jsval \<Rightarrow> string \<Rightarrow> bool" where
  "finite_field e name = (case get_prop e name of JNum (Fin r) \<Rightarrow> True | _ \<Rightarrow> False)"

definition numbers_finite :: "jsval \<Rightarrow> bool" where
  "numbers_finite e =
     (finite_field e ''latitude'' \<and> finite_field e ''longitude'' \<and> finite_field e ''createdAt'')"

text \<open>
  A sequence of saves, each with what the clock and the random source return during it,
  and the condition that whenever a save regenerates an id, the new id is the id of no
  entry of the collection.
\<close>

fun save_all :: "(env \<times> jsval) list \<Rightarrow> storage \<Rightarrow> storage" where
  "save_all [] s = s"
| "save_all (c # cs) s = save_all cs (snd (snd (saveEntry reliable (fst c) (snd c) s)))"

fun fresh_ids :: "(env \<times> jsval) list \<Rightarrow> storage \<Rightarrow> bool" where
  "fresh_ids [] s = True"
| "fresh_ids (c # cs) s =
     ((validateEntry (snd c) \<and> list_ex (same_id (get_prop (snd c) ''id'')) (list_entries s)
         \<longrightarrow> \<not> list_ex (same_id (JStr (regenerated_id (fst c)))) (list_entries s))
      \<and> fresh_ids cs (snd (snd (saveEntry reliable (fst c) (snd c) s))))"

section \<open>Concrete inputs\<close>

text \<open>
  The two entries of the concrete scenario of the specification, a third entry with an id
  of its own, the first entry with a latitude that is NaN, and an entry whose id has the
  form of a generated id.
\<close>

definition entry_a :: jsval where
  "entry_a =
     JObj [(''id'', JStr ''a''), (''imageUri'', JStr ''u''), (''address'', JStr ''addr''),
           (''latitude'', JNum (Fin 1)), (''longitude'', JNum (Fin 2)),
           (''createdAt'', JNum (Fin 1000))]"

definition entry_a2 :: jsval where
  "entry_a2 =
     JObj [(''id'', JStr ''a''), (''imageUri'', JStr ''u2''), (''address'', JStr ''addr2''),
           (''latitude'', JNum (Fin 3)), (''longitude'', JNum (Fin 4)),
           (''createdAt'', JNum (Fin 2000))]"

definition entry_b :: jsval where
  "entry_b =
     JObj [(''id'', JStr ''b''), (''imageUri'', JStr ''u2''), (''address'', JStr ''addr2''),
           (''latitude'', JNum (Fin 3)), (''longitude'', JNum (Fin 4)),
           (''createdAt'', JNum (Fin 2000))]"

definition entry_nan :: jsval where
  "entry_nan = set_prop entry_a ''latitude'' (JNum NaN)"

definition entry_g :: jsval where
  "entry_g = set_prop entry_b ''id'' (JStr ''entry_loyw3v28_k2j3h4g5f'')"

text \<open>
  The first entry with a latitude that is an infinity, as \<^verbatim>\<open>JSON.parse\<close> reads it from
  the literal \<^verbatim>\<open>1e999\<close>; an entry whose weather holds NaN, and what JSON makes of it.
\<close>

definition entry_inf :: jsval where
  "entry_inf = set_prop entry_a ''latitude'' (JNum PosInf)"

definition entry_w :: jsval where
  "entry_w = set_prop entry_b ''weather'' (JObj [(''temperature'', JNum NaN)])"

definition entry_w_read :: jsval where
  "entry_w_read = set_prop entry_b ''weather'' (JObj [(''temperature'', JNull)])"

text \<open>A storage that holds one text under the entries key.\<close>

definition storage_of :: "raw \<Rightarrow> storage" where
  "storage_of t = \<lparr> items = (\<lambda>key. if key = ENTRIES then Some t else None), writes = 0 \<rparr>"

text \<open>
  A reading of the clock and of the random source: \<^verbatim>\<open>Date.now()\<close> is 1700000000000,
  \<^verbatim>\<open>loyw3v28\<close> in base 36.
\<close>

definition env0 :: env where
  "env0 = \<lparr> now = 1700000000000, random36 = ''0.k2j3h4g5f6d'' \<rparr>"

text \<open>
  A backend in which every operation rejects; one that rejects every read and otherwise
  keeps what it is given; one that rejects the first read only (its state says whether a
  read has been rejected); and one that acknowledges a write and does not keep it.
\<close>

definition faulty :: "unit backend" where
  "faulty =
     \<lparr> getItem = (\<lambda>key s. (Inl (BackendFault ''get''), s)),
       setItem = (\<lambda>key v s. (Inl (BackendFault ''set''), s)),
       removeItem = (\<lambda>key s. (Inl (BackendFault ''remove''), s)) \<rparr>"



definition forgetful :: "storage backend" where
  "forgetful =
     \<lparr> getItem = (\<lambda>key s. (Inr (items s key), s)),
       setItem = (\<lambda>key v s. (Inr (), s)),
       removeItem = (\<lambda>key s. (Inr (), s)) \<rparr>"

section \<open>The validator\<close>

lemma typeof_string_iff: "typeof v = ''string'' \<longleftrightarrow> is_string v"
  by (cases v) (simp_all add: is_string_def)

lemma typeof_object_scalar: "is_scalar v \<Longrightarrow> typeof v \<noteq> ''object''"
  by (cases v) (simp_all add: is_scalar_def)

lemma isArray_iff: "isArray v \<longleftrightarrow> is_sequence v"
  by (cases v) (simp_all add: is_sequence_def)

lemma validateEntry_entry_a: "validateEntry entry_a"
  by (simp add: entry_a_def validateEntry_def requiredFields_def)

lemma validateEntry_entry_a2: "validateEntry entry_a2"
  by (simp add: entry_a2_def validateEntry_def requiredFields_def)

text \<open>
  C5, as the code has it. A value in which \<open>title\<close> or \<open>notes\<close> is present and not a string,
  \<open>tags\<close> is present and not a sequence, or \<open>weather\<close> is present and is a boolean, a number
  or a string, fails \<open>validateEntry\<close>. (Present: the field does not read as undefined.)
\<close>

theorem validateEntry_optional_fields:
  "(present v ''title'' \<and> \<not> is_string (get_prop v ''title''))
   \<or> (present v ''notes'' \<and> \<not> is_string (get_prop v ''notes''))
   \<or> (present v ''tags'' \<and> \<not> is_sequence (get_prop v ''tags''))
   \<or> (present v ''weather'' \<and> is_scalar (get_prop v ''weather''))
   \<Longrightarrow> validateEntry v = False"
  unfolding validateEntry_def present_def
  by (auto simp: typeof_string_iff isArray_iff dest: typeof_object_scalar)

theorem validateEntry_optional_fields_witness:
  "present (set_prop entry_a ''title'' (JNum (Fin 5))) ''title''
   \<and> \<not> is_string (get_prop (set_prop entry_a ''title'' (JNum (Fin 5))) ''title'')
   \<and> validateEntry (set_prop entry_a ''title'' (JNum (Fin 5))) = False
   \<and> present (set_prop entry_a ''notes'' JNull) ''notes''
   \<and> \<not> is_string (get_prop (set_prop entry_a ''notes'' JNull) ''notes'')
   \<and> validateEntry (set_prop entry_a ''notes'' JNull) = False
   \<and> present (set_prop entry_a ''tags'' (JStr ''sea'')) ''tags''
   \<and> \<not> is_sequence (get_prop (set_prop entry_a ''tags'' (JStr ''sea'')) ''tags'')
   \<and> validateEntry (set_prop entry_a ''tags'' (JStr ''sea'')) = False
   \<and> present (set_prop entry_a ''weather'' (JNum (Fin 21))) ''weather''
   \<and> is_scalar (get_prop (set_prop entry_a ''weather'' (JNum (Fin 21))) ''weather'')
   \<and> validateEntry (set_prop entry_a ''weather'' (JNum (Fin 21))) = False"
proof -
  have t: "present (set_prop entry_a ''title'' (JNum (Fin 5))) ''title''
      \<and> \<not> is_string (get_prop (set_prop entry_a ''title'' (JNum (Fin 5))) ''title'')"
    by (simp add: entry_a_def present_def is_string_def)
  have n: "present (set_prop entry_a ''notes'' JNull) ''notes''
      \<and> \<not> is_string (get_prop (set_prop entry_a ''notes'' JNull) ''notes'')"
    by (simp add: entry_a_def present_def is_string_def)
  have g: "present (set_prop entry_a ''tags'' (JStr ''sea'')) ''tags''
      \<and> \<not> is_sequence (get_prop (set_prop entry_a ''tags'' (JStr ''sea'')) ''tags'')"
    by (simp add: entry_a_def present_def is_sequence_def)
  have w: "present (set_prop entry_a ''weather'' (JNum (Fin 21))) ''weather''
      \<and> is_scalar (get_prop (set_prop entry_a ''weather'' (JNum (Fin 21))) ''weather'')"
    by (simp add: entry_a_def present_def is_scalar_def)
  from t n g w
    validateEntry_optional_fields [of "set_prop entry_a ''title'' (JNum (Fin 5))"]
    validateEntry_optional_fields [of "set_prop entry_a ''notes'' JNull"]
    validateEntry_optional_fields [of "set_prop entry_a ''tags'' (JStr ''sea'')"]
    validateEntry_optional_fields [of "set_prop entry_a ''weather'' (JNum (Fin 21))"]
  show ?thesis by blast
qed

text \<open>
  C5 as stated fails on the code: an entry whose \<open>weather\<close> is an array, or \<open>null\<close>, has a
  \<open>weather\<close> that is present and is not a structured record, and passes \<open>validateEntry\<close>.
\<close>

theorem validateEntry_weather_counterexample:
  "present (set_prop entry_a ''weather'' (JArr [])) ''weather''
   \<and> \<not> is_structured_record (get_prop (set_prop entry_a ''weather'' (JArr [])) ''weather'')
   \<and> is_json (set_prop entry_a ''weather'' (JArr []))
   \<and> validateEntry (set_prop entry_a ''weather'' (JArr [])) = True
   \<and> present (set_prop entry_a ''weather'' JNull) ''weather''
   \<and> \<not> is_structured_record (get_prop (set_prop entry_a ''weather'' JNull) ''weather'')
   \<and> is_json (set_prop entry_a ''weather'' JNull)
   \<and> validateEntry (set_prop entry_a ''weather'' JNull) = True"
  by (simp add: entry_a_def present_def is_structured_record_def validateEntry_def
      requiredFields_def)

section \<open>Reading from the reliable backend\<close>

lemma getEntries_reliable: "getEntries reliable s = (Inr (list_entries s), s)"
  by (simp add: list_entries_def getEntries_def getEntries_try_def reliable_def catch_with_def
      split: option.splits sum.splits jsval.splits)

lemma list_entries_absent: "items s ENTRIES = None \<Longrightarrow> list_entries s = []"
  by (simp add: list_entries_def getEntries_def getEntries_try_def reliable_def catch_with_def)

lemma list_entries_unparsable:
  "items s ENTRIES = Some t \<Longrightarrow> JSON_parse t = Inl err \<Longrightarrow> list_entries s = []"
  by (simp add: list_entries_def getEntries_def getEntries_try_def reliable_def catch_with_def)

lemma list_entries_invalid:
  "items s ENTRIES = Some t \<Longrightarrow> JSON_parse t = Inr v \<Longrightarrow> \<not> validateEntries v
     \<Longrightarrow> list_entries s = []"
  by (simp add: list_entries_def getEntries_def getEntries_try_def reliable_def catch_with_def)

lemma list_entries_valid:
  "items s ENTRIES = Some (Doc (JArr xs)) \<Longrightarrow> is_parsed (JArr xs) \<Longrightarrow> list_all validateEntry xs
     \<Longrightarrow> list_entries s = array_sort compareFn xs"
  by (simp add: list_entries_def getEntries_def getEntries_try_def reliable_def catch_with_def
      validateEntries_def)

text \<open>
  C7. When the entries key is absent, or its text is not JSON, or the text decodes to a
  value that fails \<open>validateEntries\<close>, \<open>list()\<close> returns the empty sequence (and does not
  throw).
\<close>

theorem getEntries_corrupted:
  "items s ENTRIES = None
   \<or> (\<exists>t err. items s ENTRIES = Some t \<and> JSON_parse t = Inl err)
   \<or> (\<exists>t v. items s ENTRIES = Some t \<and> JSON_parse t = Inr v \<and> \<not> validateEntries v)
   \<Longrightarrow> getEntries reliable s = (Inr [], s)"
  unfolding getEntries_reliable
  by (auto simp: list_entries_absent list_entries_unparsable list_entries_invalid)

text \<open>
  The three cases: no key, the text \<^verbatim>\<open>not json\<close>, and the text \<^verbatim>\<open>[{"id": 123}]\<close>.
\<close>

theorem getEntries_corrupted_witness:
  "getEntries reliable empty_storage = (Inr [], empty_storage)
   \<and> getEntries reliable (storage_of Malformed) = (Inr [], storage_of Malformed)
   \<and> JSON_parse (Doc (JArr [JObj [(''id'', JNum (Fin 123))]]))
       = Inr (JArr [JObj [(''id'', JNum (Fin 123))]])
   \<and> \<not> validateEntries (JArr [JObj [(''id'', JNum (Fin 123))]])
   \<and> getEntries reliable (storage_of (Doc (JArr [JObj [(''id'', JNum (Fin 123))]])))
       = (Inr [], storage_of (Doc (JArr [JObj [(''id'', JNum (Fin 123))]])))"
proof -
  have a: "items empty_storage ENTRIES = None"
    by (simp add: empty_storage_def)
  have b: "\<exists>t err. items (storage_of Malformed) ENTRIES = Some t \<and> JSON_parse t = Inl err"
    by (simp add: storage_of_def)
  have p: "JSON_parse (Doc (JArr [JObj [(''id'', JNum (Fin 123))]]))
       = Inr (JArr [JObj [(''id'', JNum (Fin 123))]])"
    by simp
  have v: "\<not> validateEntries (JArr [JObj [(''id'', JNum (Fin 123))]])"
    by (simp add: validateEntries_def validateEntry_def requiredFields_def)
  have c: "\<exists>t v. items (storage_of (Doc (JArr [JObj [(''id'', JNum (Fin 123))]]))) ENTRIES = Some t
      \<and> JSON_parse t = Inr v \<and> \<not> validateEntries v"
    using p v by (simp add: storage_of_def)
  show ?thesis
    using getEntries_corrupted [of empty_storage] getEntries_corrupted [of "storage_of Malformed"]
      getEntries_corrupted [of "storage_of (Doc (JArr [JObj [(''id'', JNum (Fin 123))]]))"]
      a b c p v
    by blast
qed

section \<open>Removal and update of an absent id\<close>

lemma findIndex_ge: "- 1 \<le> findIndex P xs"
  by (induction xs) (auto simp: Let_def)

lemma findIndex_none: "findIndex P xs = - 1 \<longleftrightarrow> \<not> list_ex P xs"
proof (induction xs)
  case Nil
  show ?case by simp
next
  case (Cons x xs)
  have "findIndex P xs + 1 \<noteq> - 1"
    using findIndex_ge [of P xs] by arith
  with Cons show ?case by (simp add: Let_def)
qed

text \<open>
  C8. When no entry of the collection has the id, \<open>remove(id)\<close> returns false and leaves
  the storage as it was: same contents, and no write received.
\<close>

theorem removeEntry_absent:
  "\<not> list_ex (same_id ident) (list_entries s) \<Longrightarrow> removeEntry reliable ident s = (Inr False, s)"
  by (simp add: removeEntry_def removeEntry_try_def getEntries_reliable catch_with_def)

text \<open>
  C9. When a valid entry's id is not in the collection, \<open>update\<close> returns false and leaves
  the storage as it was: nothing inserted, and no write received.
\<close>

theorem updateEntry_absent:
  "validateEntry e \<Longrightarrow> \<not> list_ex (same_id (get_prop e ''id'')) (list_entries s)
     \<Longrightarrow> updateEntry reliable e s = (Inr False, s)"
  by (simp add: updateEntry_def updateEntry_try_def getEntries_reliable catch_with_def
      findIndex_none)

lemma list_entries_storage_of_a: "list_entries (storage_of (Doc (JArr [entry_a]))) = [entry_a]"
proof -
  have "is_parsed (JArr [entry_a])" by (simp add: entry_a_def)
  moreover have "list_all validateEntry [entry_a]" by (simp add: validateEntry_entry_a)
  moreover have "items (storage_of (Doc (JArr [entry_a]))) ENTRIES = Some (Doc (JArr [entry_a]))"
    by (simp add: storage_of_def)
  ultimately show ?thesis
    by (simp add: list_entries_valid array_sort_def)
qed

theorem removeEntry_absent_witness:
  "\<not> list_ex (same_id (JStr ''b'')) (list_entries (storage_of (Doc (JArr [entry_a]))))
   \<and> removeEntry reliable (JStr ''b'') (storage_of (Doc (JArr [entry_a])))
       = (Inr False, storage_of (Doc (JArr [entry_a])))"
proof -
  have h: "\<not> list_ex (same_id (JStr ''b'')) (list_entries (storage_of (Doc (JArr [entry_a]))))"
    unfolding list_entries_storage_of_a by (simp add: same_id_def entry_a_def)
  with removeEntry_absent [OF h] show ?thesis by simp
qed

theorem updateEntry_absent_witness:
  "validateEntry (set_prop entry_a2 ''id'' (JStr ''b''))
   \<and> \<not> list_ex (same_id (get_prop (set_prop entry_a2 ''id'' (JStr ''b'')) ''id''))
         (list_entries (storage_of (Doc (JArr [entry_a]))))
   \<and> updateEntry reliable (set_prop entry_a2 ''id'' (JStr ''b'')) (storage_of (Doc (JArr [entry_a])))
       = (Inr False, storage_of (Doc (JArr [entry_a])))"
proof -
  have v: "validateEntry (set_prop entry_a2 ''id'' (JStr ''b''))"
    by (simp add: entry_a2_def validateEntry_def requiredFields_def)
  have h: "\<not> list_ex (same_id (get_prop (set_prop entry_a2 ''id'' (JStr ''b'')) ''id''))
         (list_entries (storage_of (Doc (JArr [entry_a]))))"
    unfolding list_entries_storage_of_a by (simp add: same_id_def entry_a_def entry_a2_def)
  with updateEntry_absent [OF v h] v show ?thesis by simp
qed

section \<open>Faults\<close>












lemma getEntries_faulty: "getEntries faulty s = (Inr [], s)"
  by (simp add: getEntries_def getEntries_try_def faulty_def catch_with_def)



section \<open>The order of the entries read\<close>

lemma set_sort_insert: "set (sort_insert cmp x ys) = insert x (set ys)"
  by (induction ys) auto

lemma mset_sort_insert: "mset (sort_insert cmp x ys) = add_mset x (mset ys)"
  by (induction ys) auto

lemma mset_array_sort: "mset (array_sort cmp xs) = mset xs"
  unfolding array_sort_def by (induction xs) (simp_all add: mset_sort_insert)

lemma set_array_sort: "set (array_sort cmp xs) = set xs"
  using mset_array_sort [of cmp xs] by (metis set_mset_mset)

lemma sorted_sort_insert:
  assumes "\<forall>a \<in> insert x (set ys). \<forall>b \<in> insert x (set ys).
      if positive (cmp a b) then R b a else R a b"
    and "\<forall>a b c. R a b \<longrightarrow> R b c \<longrightarrow> R a c"
    and "sorted_wrt R ys"
  shows "sorted_wrt R (sort_insert cmp x ys)"
  using assms
proof (induction ys)
  case Nil
  show ?case by simp
next
  case (Cons y ys)
  show ?case
  proof (cases "positive (cmp x y)")
    case True
    with Cons.prems(1) have "R y x" by simp
    moreover have "sorted_wrt R (sort_insert cmp x ys)"
      using Cons by simp
    ultimately show ?thesis
      using True Cons.prems(3) by (auto simp: set_sort_insert)
  next
    case False
    with Cons.prems(1) have xy: "R x y" by simp
    have "R x z" if "z \<in> set ys" for z
    proof -
      from that Cons.prems(3) have "R y z" by simp
      with xy Cons.prems(2) show ?thesis by blast
    qed
    with xy False Cons.prems(3) show ?thesis by simp
  qed
qed

lemma sorted_array_sort:
  assumes "\<forall>a \<in> set xs. \<forall>b \<in> set xs. if positive (cmp a b) then R b a else R a b"
    and "\<forall>a b c. R a b \<longrightarrow> R b c \<longrightarrow> R a c"
  shows "sorted_wrt R (array_sort cmp xs)"
  using assms unfolding array_sort_def
proof (induction xs)
  case Nil
  show ?case by simp
next
  case (Cons x xs)
  have "set (foldr (sort_insert cmp) xs []) = set xs"
    using set_array_sort [of cmp xs] by (simp add: array_sort_def)
  with Cons show ?case
    by (simp add: sorted_sort_insert)
qed

lemma validateEntry_obj: "validateEntry e \<Longrightarrow> \<exists>ps. e = JObj ps"
  by (cases e) (simp_all add: validateEntry_def requiredFields_def)

lemma validateEntry_required:
  "validateEntry e \<Longrightarrow>
     is_string (get_prop e ''id'') \<and> typeof (get_prop e ''latitude'') = ''number''
     \<and> typeof (get_prop e ''longitude'') = ''number'' \<and> typeof (get_prop e ''createdAt'') = ''number''
     \<and> is_string (get_prop e ''imageUri'') \<and> is_string (get_prop e ''address'')"
  unfolding validateEntry_def requiredFields_def
  by (simp add: typeof_string_iff split: if_splits)

lemma typeof_number: "typeof v = ''number'' \<longleftrightarrow> (\<exists>n. v = JNum n)"
  by (cases v) simp_all

lemma is_json_parsed: "is_json v \<Longrightarrow> is_parsed v"
proof (induction v)
  case (JNum n)
  then show ?case by (cases n) simp_all
next
  case (JArr xs)
  then show ?case by (simp add: list_all_iff)
next
  case (JObj ps)
  then show ?case by (fastforce simp: list_all_iff)
qed simp_all

lemma is_parsed_get_prop:
  "is_parsed e \<Longrightarrow> get_prop e name \<noteq> JUndefined \<Longrightarrow> is_parsed (get_prop e name)"
proof (cases e)
  case (JObj ps)
  assume j: "is_parsed e" and d: "get_prop e name \<noteq> JUndefined"
  from d JObj obtain v where v: "map_of ps name = Some v" "get_prop e name = v"
    by (auto split: option.splits)
  then have "(name, v) \<in> set ps" by (simp add: map_of_SomeD)
  with j JObj have "is_parsed v" by (auto simp: list_all_iff)
  with v show ?thesis by simp
qed simp_all

lemma dated_valid: "validateEntry e \<Longrightarrow> is_parsed e \<Longrightarrow> dated e"
proof -
  assume v: "validateEntry e" and j: "is_parsed e"
  from validateEntry_required [OF v] obtain n where n: "get_prop e ''createdAt'' = JNum n"
    by (auto simp: typeof_number)
  with is_parsed_get_prop [OF j, of "''createdAt''"] have "is_number n" by simp
  with n show ?thesis by (simp add: dated_def)
qed

lemma num_le_trans: "num_le a b \<Longrightarrow> num_le b c \<Longrightarrow> num_le a c"
  by (cases a; cases b; cases c) simp_all

lemma newest_first_trans: "newest_first a b \<Longrightarrow> newest_first b c \<Longrightarrow> newest_first a c"
  unfolding newest_first_def
  by (auto split: jsval.splits dest: num_le_trans)

lemma positive_js_sub:
  "is_number n \<Longrightarrow> is_number m \<Longrightarrow> (if positive (js_sub m n) then num_le n m else num_le m n)"
  by (cases n; cases m) auto

lemma compareFn_newest_first:
  "dated a \<Longrightarrow> dated b \<Longrightarrow> (if positive (compareFn a b) then newest_first b a else newest_first a b)"
  using positive_js_sub
  by (auto simp: dated_def compareFn_def newest_first_def split: jsval.splits)

lemma JSON_parse_Inr: "JSON_parse t = Inr v \<longleftrightarrow> t = Doc v \<and> is_parsed v"
  by (cases t) auto

lemma is_parsed_element: "is_parsed (JArr xs) \<Longrightarrow> x \<in> set xs \<Longrightarrow> is_parsed x"
  by (simp add: list_all_iff)

lemma stored_collection_valid:
  assumes "x \<in> set (stored_collection s)"
  shows "validateEntry x \<and> is_parsed x"
proof (cases "items s ENTRIES")
  case None
  with assms show ?thesis by (simp add: stored_collection_def)
next
  case (Some t)
  show ?thesis
  proof (cases "JSON_parse t")
    case (Inl err)
    with Some assms show ?thesis by (simp add: stored_collection_def)
  next
    case (Inr v)
    then have j: "is_parsed v" by (simp add: JSON_parse_Inr)
    show ?thesis
    proof (cases v)
      case (JArr xs)
      with Some Inr assms have "list_all validateEntry xs" "x \<in> set xs"
        by (auto simp: stored_collection_def split: if_splits)
      with j JArr show ?thesis
        using is_parsed_element [of xs x] by (simp add: list_all_iff)
    qed (use Some Inr assms in \<open>simp_all add: stored_collection_def\<close>)
  qed
qed

lemma list_entries_stored: "list_entries s = array_sort compareFn (stored_collection s)"
  by (auto simp: list_entries_def getEntries_def getEntries_try_def reliable_def catch_with_def
      stored_collection_def validateEntries_def array_sort_def
      split: option.splits sum.splits jsval.splits raw.splits)

lemma sorted_list_entries: "sorted_wrt newest_first (list_entries s)"
proof -
  let ?xs = "stored_collection s"
  have "dated a" if "a \<in> set ?xs" for a
    using that stored_collection_valid dated_valid by blast
  then have "\<forall>a \<in> set ?xs. \<forall>b \<in> set ?xs.
      if positive (compareFn a b) then newest_first b a else newest_first a b"
    using compareFn_newest_first by blast
  moreover have "\<forall>a b c. newest_first a b \<longrightarrow> newest_first b c \<longrightarrow> newest_first a c"
    using newest_first_trans by blast
  ultimately have "sorted_wrt newest_first (array_sort compareFn ?xs)"
    by (rule sorted_array_sort)
  then show ?thesis by (simp add: list_entries_stored)
qed

text \<open>
  C4. Whatever is stored, \<open>list()\<close> returns the entries of the stored collection (all of
  them, each as often as it is stored) in descending order of \<open>createdAt\<close>.
\<close>

theorem getEntries_newest_first:
  "\<exists>xs. getEntries reliable s = (Inr xs, s) \<and> sorted_wrt newest_first xs
      \<and> mset xs = mset (stored_collection s)"
  using sorted_list_entries [of s]
  by (simp add: getEntries_reliable list_entries_stored mset_array_sort)

lemma stored_collection_storage_of:
  "is_parsed (JArr xs) \<Longrightarrow> list_all validateEntry xs
     \<Longrightarrow> stored_collection (storage_of (Doc (JArr xs))) = xs"
  by (simp add: stored_collection_def storage_of_def)


theorem getEntries_newest_first_witness:
  "getEntries reliable (storage_of (Doc (JArr [entry_a, entry_b])))
     = (Inr [entry_b, entry_a], storage_of (Doc (JArr [entry_a, entry_b])))
   \<and> sorted_wrt newest_first [entry_b, entry_a]
   \<and> stored_collection (storage_of (Doc (JArr [entry_a, entry_b]))) = [entry_a, entry_b]"
proof -
  have v: "list_all validateEntry [entry_a, entry_b]"
    by (simp add: entry_a_def entry_b_def validateEntry_def requiredFields_def)
  have j: "is_parsed (JArr [entry_a, entry_b])"
    by (simp add: entry_a_def entry_b_def)
  have i: "items (storage_of (Doc (JArr [entry_a, entry_b]))) ENTRIES = Some (Doc (JArr [entry_a, entry_b]))"
    by (simp add: storage_of_def)
  have "array_sort compareFn [entry_a, entry_b] = [entry_b, entry_a]"
    by (simp add: array_sort_def compareFn_def entry_a_def entry_b_def)
  with list_entries_valid [OF i j v]
  have l: "getEntries reliable (storage_of (Doc (JArr [entry_a, entry_b])))
     = (Inr [entry_b, entry_a], storage_of (Doc (JArr [entry_a, entry_b])))"
    by (simp add: getEntries_reliable)
  have c: "stored_collection (storage_of (Doc (JArr [entry_a, entry_b]))) = [entry_a, entry_b]"
    using j v by (rule stored_collection_storage_of)
  from getEntries_newest_first [of "storage_of (Doc (JArr [entry_a, entry_b]))"] l c
  show ?thesis by simp
qed

section \<open>JSON round trip\<close>

lemma is_json_defined: "is_json v \<Longrightarrow> v \<noteq> JUndefined"
  by (cases v) simp_all

lemma to_json_fixed: "is_json v \<Longrightarrow> to_json v = v"
proof (induction v)
  case (JArr xs)
  have "undefined_to_null (to_json x) = x" if "x \<in> set xs" for x
  proof -
    from that JArr.prems have "is_json x" by (simp add: list_all_iff)
    with JArr.IH [OF that] show ?thesis by (cases x) simp_all
  qed
  then have "map (\<lambda>x. undefined_to_null (to_json x)) xs = xs"
    by (simp add: map_idI)
  then show ?case by (simp add: comp_def)
next
  case (JObj ps)
  have p: "map_prod id to_json p = p \<and> snd p \<noteq> JUndefined" if "p \<in> set ps" for p
  proof -
    obtain k x where kx: "p = (k, x)" by (cases p)
    with that JObj.prems have j: "is_json x" by (auto simp: list_all_iff)
    from kx that have "to_json x = x" using JObj.IH [of p x] j by simp
    with kx j show ?thesis by (simp add: is_json_defined)
  qed
  then have "map (map_prod id to_json) ps = ps"
    by (simp add: map_idI)
  moreover have "filter (\<lambda>p. snd p \<noteq> JUndefined) ps = ps"
    using p by (simp add: filter_id_conv)
  ultimately show ?case by simp
qed (simp_all split: if_splits)

lemma to_json_defined: "v \<noteq> JUndefined \<Longrightarrow> to_json v \<noteq> JUndefined"
  by (cases v) simp_all

lemma is_json_to_json: "v \<noteq> JUndefined \<Longrightarrow> is_json (to_json v)"
proof (induction v)
  case (JArr xs)
  have "is_json (undefined_to_null (to_json x))" if "x \<in> set xs" for x
  proof (cases "x = JUndefined")
    case True
    then show ?thesis by simp
  next
    case False
    with JArr.IH [OF that] have "is_json (to_json x)" by simp
    moreover from this have "undefined_to_null (to_json x) = to_json x"
      by (cases "to_json x") simp_all
    ultimately show ?thesis by simp
  qed
  then show ?case by (simp add: list_all_iff)
next
  case (JObj ps)
  have "is_json (to_json x)" if "(k, x) \<in> set ps" "to_json x \<noteq> JUndefined" for k x
  proof -
    from that(2) have "x \<noteq> JUndefined" by auto
    with JObj.IH [of "(k, x)" x] that(1) show ?thesis by simp
  qed
  then show ?case by (auto simp: list_all_iff)
qed simp_all

lemma map_of_to_json_first:
  "map_of ps k = Some v \<Longrightarrow> f v \<noteq> JUndefined
     \<Longrightarrow> map_of (filter (\<lambda>p. snd p \<noteq> JUndefined) (map (map_prod id f) ps)) k = Some (f v)"
  by (induction ps) (auto split: if_splits)

lemma map_of_to_json_distinct:
  "distinct (map fst ps) \<Longrightarrow>
     map_of (filter (\<lambda>p. snd p \<noteq> JUndefined) (map (map_prod id f) ps)) k
       = (case map_of ps k of None \<Rightarrow> None
          | Some v \<Rightarrow> if f v = JUndefined then None else Some (f v))"
proof (induction ps arbitrary: k)
  case Nil
  show ?case by simp
next
  case (Cons p ps)
  obtain a v where p: "p = (a, v)" by (cases p)
  from Cons.prems p have "a \<notin> fst ` set ps" by simp
  then have "map_of ps a = None" by (simp add: map_of_eq_None_iff)
  with Cons p show ?case by simp
qed

lemma get_prop_to_json:
  "distinct_keys e \<Longrightarrow> get_prop (to_json e) name = to_json (get_prop e name)"
proof (cases e)
  case (JObj ps)
  assume "distinct_keys e"
  with JObj have "distinct (map fst ps)" by (simp add: distinct_keys_def)
  from map_of_to_json_distinct [OF this, of to_json name] JObj show ?thesis
    by (simp split: option.splits)
qed (simp_all split: if_splits)

lemma to_json_string: "is_string v \<Longrightarrow> to_json v = v"
  by (cases v) (simp_all add: is_string_def)

lemma to_json_undefined_iff: "to_json v = JUndefined \<longleftrightarrow> v = JUndefined"
  by (cases v) simp_all

lemma isArray_to_json: "isArray v \<Longrightarrow> isArray (to_json v)"
  by (cases v) simp_all

lemma typeof_object_to_json: "typeof v = ''object'' \<Longrightarrow> typeof (to_json v) = ''object''"
  by (cases v) simp_all

lemma finite_field_to_json:
  "finite_field e name \<Longrightarrow> to_json (get_prop e name) = get_prop e name \<and> typeof (get_prop e name) = ''number''"
  by (auto simp: finite_field_def split: jsval.splits jsnum.splits)

lemma validateEntry_optionals:
  "validateEntry e \<Longrightarrow>
     (get_prop e ''title'' = JUndefined \<or> is_string (get_prop e ''title''))
     \<and> (get_prop e ''notes'' = JUndefined \<or> is_string (get_prop e ''notes''))
     \<and> (get_prop e ''tags'' = JUndefined \<or> isArray (get_prop e ''tags''))
     \<and> (get_prop e ''weather'' = JUndefined \<or> typeof (get_prop e ''weather'') = ''object'')"
  unfolding validateEntry_def
  by (simp add: typeof_string_iff split: if_splits)

lemma validateEntry_intro:
  assumes "\<exists>ps. e = JObj ps"
    and "is_string (get_prop e ''id'')" "is_string (get_prop e ''imageUri'')"
    and "is_string (get_prop e ''address'')"
    and "typeof (get_prop e ''latitude'') = ''number''" "typeof (get_prop e ''longitude'') = ''number''"
    and "typeof (get_prop e ''createdAt'') = ''number''"
    and "get_prop e ''title'' = JUndefined \<or> is_string (get_prop e ''title'')"
    and "get_prop e ''notes'' = JUndefined \<or> is_string (get_prop e ''notes'')"
    and "get_prop e ''tags'' = JUndefined \<or> isArray (get_prop e ''tags'')"
    and "get_prop e ''weather'' = JUndefined \<or> typeof (get_prop e ''weather'') = ''object''"
  shows "validateEntry e"
proof -
  from assms(1) have "\<not> falsy e" "typeof e = ''object''" by auto
  with assms(2-) show ?thesis
    unfolding validateEntry_def requiredFields_def
    by (simp add: typeof_string_iff)
qed

lemma validateEntry_to_json:
  assumes v: "validateEntry e" and d: "distinct_keys e" and n: "numbers_finite e"
  shows "validateEntry (to_json e)"
proof (rule validateEntry_intro)
  from validateEntry_obj [OF v] show "\<exists>ps. to_json e = JObj ps" by auto
next
  note r = validateEntry_required [OF v] and o = validateEntry_optionals [OF v]
    and g = get_prop_to_json [OF d]
  show "is_string (get_prop (to_json e) ''id'')" using r by (simp add: g to_json_string)
  show "is_string (get_prop (to_json e) ''imageUri'')" using r by (simp add: g to_json_string)
  show "is_string (get_prop (to_json e) ''address'')" using r by (simp add: g to_json_string)
  show "typeof (get_prop (to_json e) ''latitude'') = ''number''"
    using n finite_field_to_json [of e "''latitude''"] by (simp add: g numbers_finite_def)
  show "typeof (get_prop (to_json e) ''longitude'') = ''number''"
    using n finite_field_to_json [of e "''longitude''"] by (simp add: g numbers_finite_def)
  show "typeof (get_prop (to_json e) ''createdAt'') = ''number''"
    using n finite_field_to_json [of e "''createdAt''"] by (simp add: g numbers_finite_def)
  show "get_prop (to_json e) ''title'' = JUndefined \<or> is_string (get_prop (to_json e) ''title'')"
    using o by (auto simp: g to_json_string)
  show "get_prop (to_json e) ''notes'' = JUndefined \<or> is_string (get_prop (to_json e) ''notes'')"
    using o by (auto simp: g to_json_string)
  show "get_prop (to_json e) ''tags'' = JUndefined \<or> isArray (get_prop (to_json e) ''tags'')"
    using o by (auto simp: g isArray_to_json)
  show "get_prop (to_json e) ''weather'' = JUndefined
      \<or> typeof (get_prop (to_json e) ''weather'') = ''object''"
    using o by (auto simp: g typeof_object_to_json)
qed

lemma list_entries_valid_parsed: "x \<in> set (list_entries s) \<Longrightarrow> validateEntry x \<and> is_parsed x"
  using stored_collection_valid [of x s] by (simp add: list_entries_stored set_array_sort)

lemma list_entries_json:
  "list_all is_json (list_entries s) \<Longrightarrow> \<forall>x \<in> set (list_entries s). is_json x \<and> validateEntry x"
  using list_entries_valid_parsed by (auto simp: list_all_iff)

lemma undefined_to_null_json: "is_json v \<Longrightarrow> undefined_to_null v = v"
  by (cases v) simp_all

lemma stringify_append:
  assumes "\<forall>x \<in> set xs. is_json x" and "\<exists>ps. n = JObj ps"
  shows "JSON_stringify (JArr (xs @ [n])) = Doc (JArr (xs @ [to_json n]))"
proof -
  have "undefined_to_null (to_json x) = x" if "x \<in> set xs" for x
  proof -
    from that assms(1) have "is_json x" by simp
    then show ?thesis by (simp add: to_json_fixed undefined_to_null_json)
  qed
  then have "map (\<lambda>x. undefined_to_null (to_json x)) xs = xs"
    by (simp add: map_idI)
  moreover from assms(2) have "undefined_to_null (to_json n) = to_json n" by auto
  ultimately show ?thesis by (simp add: JSON_stringify_def comp_def)
qed

lemma list_entries_written:
  assumes "\<forall>x \<in> set xs. is_json x \<and> validateEntry x" and "\<exists>ps. n = JObj ps"
  shows "list_entries (written s (xs @ [n]))
     = (if validateEntry (to_json n) then array_sort compareFn (xs @ [to_json n]) else [])"
proof -
  from assms have st: "items (written s (xs @ [n])) ENTRIES = Some (Doc (JArr (xs @ [to_json n])))"
    by (simp add: written_def stringify_append)
  from assms(2) have "n \<noteq> JUndefined" by auto
  then have "is_json (to_json n)" by (rule is_json_to_json)
  with assms(1) have "is_json (JArr (xs @ [to_json n]))" by (simp add: list_all_iff)
  then have j: "is_parsed (JArr (xs @ [to_json n]))" by (rule is_json_parsed)
  show ?thesis
  proof (cases "validateEntry (to_json n)")
    case True
    with assms(1) have "list_all validateEntry (xs @ [to_json n])" by (simp add: list_all_iff)
    with list_entries_valid [OF st j] True show ?thesis by simp
  next
    case False
    have p: "JSON_parse (Doc (JArr (xs @ [to_json n]))) = Inr (JArr (xs @ [to_json n]))"
      using j by (simp del: is_parsed.simps)
    from False have "\<not> validateEntries (JArr (xs @ [to_json n]))"
      by (simp add: validateEntries_def)
    with list_entries_invalid [OF st p] False show ?thesis by simp
  qed
qed

lemma list_entries_written_json:
  assumes "\<forall>x \<in> set xs. is_json x \<and> validateEntry x" and "\<exists>ps. n = JObj ps"
  shows "list_all is_json (list_entries (written s (xs @ [n])))"
proof -
  from assms(2) have "n \<noteq> JUndefined" by auto
  then have "is_json (to_json n)" by (rule is_json_to_json)
  with assms(1) have "\<forall>x \<in> set (xs @ [to_json n]). is_json x" by simp
  then show ?thesis
    unfolding list_entries_written [OF assms] by (auto simp: list_all_iff set_array_sort)
qed

lemma saveEntry_reliable_invalid:
  "\<not> validateEntry e \<Longrightarrow> saveEntry reliable ev e s = (Inr False, e, s)"
  by (simp add: saveEntry_def saveEntry_try_def catch_with_def)

lemma saveEntry_reliable_valid:
  assumes "validateEntry e"
  shows "saveEntry reliable ev e s =
     (let e' = (if list_ex (same_id (get_prop e ''id'')) (list_entries s)
                then set_prop e ''id'' (JStr (regenerated_id ev)) else e);
          s' = written s (list_entries s @ [e'])
      in (Inr (list_ex (same_id (get_prop e' ''id'')) (list_entries s')), e', s'))"
  using assms unfolding saveEntry_def saveEntry_try_def getEntries_reliable
  by (simp add: reliable_def written_def Let_def catch_with_def)

lemma saveEntry_keeps_json:
  assumes "list_all is_json (list_entries s)"
  shows "list_all is_json (list_entries (snd (snd (saveEntry reliable ev e s))))"
proof (cases "validateEntry e")
  case False
  with assms show ?thesis by (simp add: saveEntry_reliable_invalid)
next
  case True
  from validateEntry_obj [OF True] obtain ps where ps: "e = JObj ps" by blast
  let ?e' = "if list_ex (same_id (get_prop e ''id'')) (list_entries s)
      then set_prop e ''id'' (JStr (regenerated_id ev)) else e"
  have "\<exists>qs. ?e' = JObj qs" using ps by simp
  with list_entries_json [OF assms]
  have "list_all is_json (list_entries (written s (list_entries s @ [?e'])))"
    by (rule list_entries_written_json)
  then show ?thesis
    by (simp add: saveEntry_reliable_valid [OF True] Let_def)
qed

section \<open>Saving a new entry\<close>

lemma find_unique:
  assumes "y \<in> set xs" and "P y" and "\<forall>x \<in> set xs. P x \<longrightarrow> x = y"
  shows "find P xs = Some y"
proof (cases "find P xs")
  case None
  with assms(1,2) show ?thesis by (metis find_None_iff)
next
  case (Some z)
  then have "z \<in> set xs \<and> P z"
    by (metis find_Some_iff nth_mem)
  with assms(3) have "z = y" by blast
  with Some show ?thesis by blast
qed

lemma strict_eq_string: "strict_eq w (JStr i) \<longleftrightarrow> w = JStr i"
  by (cases w) simp_all

lemma same_id_string: "same_id (JStr i) x \<longleftrightarrow> get_prop x ''id'' = JStr i"
  by (simp add: same_id_def strict_eq_string)

lemma is_string_iff: "is_string v \<longleftrightarrow> (\<exists>s. v = JStr s)"
  by (cases v) (simp_all add: is_string_def)

lemma validateEntry_id: "validateEntry e \<Longrightarrow> \<exists>i. get_prop e ''id'' = JStr i"
  using validateEntry_required [of e] by (simp add: is_string_iff)

lemma id_to_json: "validateEntry e \<Longrightarrow> get_prop (to_json e) ''id'' = get_prop e ''id''"
proof -
  assume v: "validateEntry e"
  from validateEntry_obj [OF v] obtain ps where ps: "e = JObj ps" by blast
  from validateEntry_id [OF v] obtain i where i: "get_prop e ''id'' = JStr i" by blast
  with ps have "map_of ps ''id'' = Some (JStr i)" by (simp split: option.splits)
  from map_of_to_json_first [OF this, of to_json] ps i show ?thesis by simp
qed

lemma getEntryById_reliable:
  "getEntryById reliable ident s =
     (Inr (let entry = (case find (same_id ident) (list_entries s) of None \<Rightarrow> JUndefined | Some e \<Rightarrow> e)
           in if falsy entry then JNull else entry), s)"
  unfolding getEntryById_def getEntryById_try_def getEntries_reliable
  by (simp add: catch_with_def Let_def)

text \<open>
  C1, as the code has it. When the entries of the collection are values that JSON prints
  back as they are (as they are after any saves from the empty storage), a valid entry whose
  \<open>latitude\<close>, \<open>longitude\<close> and \<open>createdAt\<close> are finite numbers, and whose id is not in the
  collection, is saved: \<open>save\<close> returns true and leaves the caller's entry as it was, and
  \<open>getById\<close> then returns the entry as JSON prints and reads it, which is the entry itself
  when it is such a value. (The names of the properties of an object are distinct.)
\<close>

theorem saveEntry_round_trip:
  assumes v: "validateEntry e" and d: "distinct_keys e" and n: "numbers_finite e"
    and stored: "list_all is_json (list_entries s)"
    and fresh: "\<not> list_ex (same_id (get_prop e ''id'')) (list_entries s)"
  shows "\<exists>s'. saveEntry reliable ev e s = (Inr True, e, s')
      \<and> getEntryById reliable (get_prop e ''id'') s' = (Inr (to_json e), s')
      \<and> (is_json e \<longrightarrow> to_json e = e)"
proof -
  let ?L = "list_entries s"
  let ?s' = "written s (?L @ [e])"
  from validateEntry_obj [OF v] obtain ps where ps: "e = JObj ps" by blast
  from validateEntry_id [OF v] obtain i where i: "get_prop e ''id'' = JStr i" by blast
  have vj: "validateEntry (to_json e)" using v d n by (rule validateEntry_to_json)
  have ij: "get_prop (to_json e) ''id'' = JStr i" using id_to_json [OF v] i by simp
  have "\<forall>x \<in> set ?L. is_json x \<and> validateEntry x"
    using stored by (rule list_entries_json)
  then have L': "list_entries ?s' = array_sort compareFn (?L @ [to_json e])"
    using ps vj by (simp add: list_entries_written)
  then have mem: "to_json e \<in> set (list_entries ?s')"
    by (simp add: set_array_sort)
  have same: "same_id (JStr i) (to_json e)"
    using ij by (simp add: same_id_string)
  from mem same have saved: "list_ex (same_id (JStr i)) (list_entries ?s')"
    by (auto simp: list_ex_iff)
  have uniq: "\<forall>x \<in> set (list_entries ?s'). same_id (JStr i) x \<longrightarrow> x = to_json e"
    using fresh i by (auto simp: L' set_array_sort list_ex_iff)
  have "find (same_id (JStr i)) (list_entries ?s') = Some (to_json e)"
    using mem same uniq by (rule find_unique)
  moreover have "\<not> falsy (to_json e)" using ps by simp
  ultimately have "getEntryById reliable (get_prop e ''id'') ?s' = (Inr (to_json e), ?s')"
    by (simp add: getEntryById_reliable i)
  moreover have "saveEntry reliable ev e s = (Inr True, e, ?s')"
    using fresh saved by (simp add: saveEntry_reliable_valid [OF v] i)
  ultimately show ?thesis
    by (auto simp: to_json_fixed)
qed

theorem saveEntry_round_trip_witness:
  "validateEntry entry_b \<and> distinct_keys entry_b \<and> numbers_finite entry_b \<and> is_json entry_b
   \<and> list_all is_json (list_entries (storage_of (Doc (JArr [entry_a]))))
   \<and> \<not> list_ex (same_id (get_prop entry_b ''id'')) (list_entries (storage_of (Doc (JArr [entry_a]))))
   \<and> (\<exists>s'. saveEntry reliable env0 entry_b (storage_of (Doc (JArr [entry_a]))) = (Inr True, entry_b, s')
        \<and> getEntryById reliable (JStr ''b'') s' = (Inr entry_b, s'))"
proof -
  have v: "validateEntry entry_b"
    by (simp add: entry_b_def validateEntry_def requiredFields_def)
  have d: "distinct_keys entry_b"
    by (simp add: entry_b_def distinct_keys_def)
  have n: "numbers_finite entry_b"
    by (simp add: entry_b_def numbers_finite_def finite_field_def)
  have j: "is_json entry_b"
    by (simp add: entry_b_def)
  have i: "get_prop entry_b ''id'' = JStr ''b''"
    by (simp add: entry_b_def)
  have f: "\<not> list_ex (same_id (get_prop entry_b ''id'')) (list_entries (storage_of (Doc (JArr [entry_a]))))"
    unfolding list_entries_storage_of_a by (simp add: same_id_def entry_a_def entry_b_def)
  have st: "list_all is_json (list_entries (storage_of (Doc (JArr [entry_a]))))"
    unfolding list_entries_storage_of_a by (simp add: entry_a_def)
  from saveEntry_round_trip [OF v d n st f, of env0] obtain s' where
    a: "saveEntry reliable env0 entry_b (storage_of (Doc (JArr [entry_a]))) = (Inr True, entry_b, s')"
    and b: "getEntryById reliable (get_prop entry_b ''id'') s' = (Inr (to_json entry_b), s')"
    and c: "is_json entry_b \<longrightarrow> to_json entry_b = entry_b"
    by blast
  from c j have "to_json entry_b = entry_b" by blast
  with b i have "getEntryById reliable (JStr ''b'') s' = (Inr entry_b, s')" by simp
  with a v d n j st f show ?thesis by blast
qed

text \<open>
  C1 as stated fails on the code, in three ways. NaN is a number for \<open>validateEntry\<close>, JSON
  prints it as \<open>null\<close>, and the array read back fails the validation, so \<open>save\<close> returns
  false. The same happens to a finite entry when a stored entry holds an infinity. And an
  entry that is saved is not read back as it was when JSON does not print it as it is: NaN
  in its weather comes back as \<open>null\<close>.
\<close>

theorem saveEntry_round_trip_counterexample:
  "validateEntry entry_nan
   \<and> \<not> list_ex (same_id (get_prop entry_nan ''id'')) (list_entries empty_storage)
   \<and> fst (saveEntry reliable env0 entry_nan empty_storage) = Inr False
   \<and> list_entries (storage_of (Doc (JArr [entry_inf]))) = [entry_inf]
   \<and> validateEntry entry_b \<and> numbers_finite entry_b
   \<and> \<not> list_ex (same_id (get_prop entry_b ''id'')) [entry_inf]
   \<and> fst (saveEntry reliable env0 entry_b (storage_of (Doc (JArr [entry_inf])))) = Inr False
   \<and> validateEntry entry_w \<and> numbers_finite entry_w
   \<and> \<not> list_ex (same_id (get_prop entry_w ''id'')) (list_entries empty_storage)
   \<and> fst (saveEntry reliable env0 entry_w empty_storage) = Inr True
   \<and> fst (getEntryById reliable (get_prop entry_w ''id'')
           (snd (snd (saveEntry reliable env0 entry_w empty_storage)))) = Inr entry_w_read
   \<and> entry_w_read \<noteq> entry_w"
  by code_simp

section \<open>Regenerated ids\<close>

lemma map_of_assign: "map_of (assign ps k v) k' = (if k' = k then Some v else map_of ps k')"
  by (induction ps) auto

lemma get_prop_set_prop:
  "get_prop (set_prop (JObj ps) k v) k' = (if k' = k then v else get_prop (JObj ps) k')"
  by (simp add: map_of_assign)

lemma validateEntry_set_id:
  assumes v: "validateEntry e"
  shows "validateEntry (set_prop e ''id'' (JStr g))"
proof -
  from validateEntry_obj [OF v] obtain ps where ps: "e = JObj ps" by blast
  note r = validateEntry_required [OF v] and o = validateEntry_optionals [OF v]
  show ?thesis
  proof (rule validateEntry_intro)
    show "\<exists>qs. set_prop e ''id'' (JStr g) = JObj qs" using ps by simp
  qed (use r o in \<open>simp_all add: ps get_prop_set_prop is_string_def del: get_prop.simps set_prop.simps\<close>)
qed

lemma regenerated_id_env0: "regenerated_id env0 = ''entry_loyw3v28_k2j3h4g5f''"
  by code_simp

lemma distinct_ids_after:
  assumes I: "distinct (map entry_id (list_entries s))"
    and J: "list_all is_json (list_entries s)"
    and v: "validateEntry e'" and f: "\<not> list_ex (same_id (get_prop e' ''id'')) (list_entries s)"
  shows "distinct (map entry_id (list_entries (written s (list_entries s @ [e']))))"
proof -
  let ?L = "list_entries s"
  from validateEntry_obj [OF v] have ob: "\<exists>ps. e' = JObj ps" .
  from validateEntry_id [OF v] obtain i where i: "get_prop e' ''id'' = JStr i" by blast
  have Lv: "\<forall>x \<in> set ?L. is_json x \<and> validateEntry x"
    using J by (rule list_entries_json)
  show ?thesis
  proof (cases "validateEntry (to_json e')")
    case False
    with Lv ob show ?thesis by (simp add: list_entries_written)
  next
    case True
    with Lv ob have L': "list_entries (written s (?L @ [e'])) = array_sort compareFn (?L @ [to_json e'])"
      by (simp add: list_entries_written)
    have "entry_id (to_json e') = JStr i"
      using id_to_json [OF v] i by (simp add: entry_id_def)
    moreover have "JStr i \<notin> set (map entry_id ?L)"
      using f i by (auto simp: list_ex_iff same_id_string entry_id_def)
    ultimately have "distinct (map entry_id (?L @ [to_json e']))"
      using I by simp
    moreover have "mset (map entry_id (array_sort compareFn (?L @ [to_json e'])))
        = mset (map entry_id (?L @ [to_json e']))"
      by (simp only: mset_map mset_array_sort)
    ultimately show ?thesis
      unfolding L' using mset_eq_imp_distinct_iff by blast
  qed
qed

lemma saveEntry_keeps_distinct:
  assumes I: "distinct (map entry_id (list_entries s))"
    and J: "list_all is_json (list_entries s)"
    and F: "validateEntry e \<and> list_ex (same_id (get_prop e ''id'')) (list_entries s)
         \<longrightarrow> \<not> list_ex (same_id (JStr (regenerated_id ev))) (list_entries s)"
  shows "distinct (map entry_id (list_entries (snd (snd (saveEntry reliable ev e s)))))"
proof (cases "validateEntry e")
  case False
  with I show ?thesis by (simp add: saveEntry_reliable_invalid)
next
  case v: True
  show ?thesis
  proof (cases "list_ex (same_id (get_prop e ''id'')) (list_entries s)")
    case False
    with distinct_ids_after [OF I J v False] show ?thesis
      by (simp add: saveEntry_reliable_valid [OF v] Let_def)
  next
    case True
    let ?e' = "set_prop e ''id'' (JStr (regenerated_id ev))"
    from validateEntry_obj [OF v] obtain ps where ps: "e = JObj ps" by blast
    have v': "validateEntry ?e'" using v by (rule validateEntry_set_id)
    have "get_prop ?e' ''id'' = JStr (regenerated_id ev)"
      unfolding ps get_prop_set_prop by simp
    with F v True have "\<not> list_ex (same_id (get_prop ?e' ''id'')) (list_entries s)"
      by simp
    from distinct_ids_after [OF I J v' this] True show ?thesis
      by (simp add: saveEntry_reliable_valid [OF v] Let_def)
  qed
qed

lemma save_all_keeps_distinct:
  "distinct (map entry_id (list_entries s)) \<Longrightarrow> list_all is_json (list_entries s)
     \<Longrightarrow> fresh_ids calls s
     \<Longrightarrow> distinct (map entry_id (list_entries (save_all calls s)))"
proof (induction calls arbitrary: s)
  case Nil
  then show ?case by simp
next
  case (Cons c cs)
  let ?s' = "snd (snd (saveEntry reliable (fst c) (snd c) s))"
  from Cons.prems have "distinct (map entry_id (list_entries ?s'))"
    by (intro saveEntry_keeps_distinct) simp_all
  moreover from Cons.prems(2) have "list_all is_json (list_entries ?s')"
    by (rule saveEntry_keeps_json)
  moreover from Cons.prems(3) have "fresh_ids cs ?s'" by simp
  ultimately have "distinct (map entry_id (list_entries (save_all cs ?s')))"
    by (rule Cons.IH)
  then show ?case by simp
qed

lemma save_all_keeps_json:
  "list_all is_json (list_entries s) \<Longrightarrow> list_all is_json (list_entries (save_all calls s))"
  by (induction calls arbitrary: s) (simp_all add: saveEntry_keeps_json)

lemma save_all_json: "list_all is_json (list_entries (save_all calls empty_storage))"
  by (rule save_all_keeps_json) (simp add: list_entries_absent empty_storage_def)

lemma distinct_stored_iff:
  "distinct (map entry_id (stored_collection s)) \<longleftrightarrow> distinct (map entry_id (list_entries s))"
proof -
  have "mset (map entry_id (list_entries s)) = mset (map entry_id (stored_collection s))"
    by (simp only: list_entries_stored mset_map mset_array_sort)
  then show ?thesis using mset_eq_imp_distinct_iff by blast
qed

text \<open>
  C2, as the code has it. Starting from the empty storage, after any sequence of saves in
  which every regenerated id is the id of no entry then in the collection, no two entries
  of the stored collection have the same id.
\<close>

theorem save_all_unique_ids:
  "fresh_ids calls empty_storage
     \<Longrightarrow> distinct (map entry_id (stored_collection (save_all calls empty_storage)))"
proof -
  assume f: "fresh_ids calls empty_storage"
  have e: "list_entries empty_storage = []"
    by (simp add: list_entries_absent empty_storage_def)
  then have d: "distinct (map entry_id (list_entries empty_storage))" by simp
  from e have j: "list_all is_json (list_entries empty_storage)" by simp
  from save_all_keeps_distinct [OF d j f] show ?thesis
    by (simp only: distinct_stored_iff)
qed

theorem save_all_unique_ids_witness:
  "fresh_ids [(env0, entry_a), (env0, entry_a2)] empty_storage
   \<and> distinct (map entry_id (stored_collection (save_all [(env0, entry_a), (env0, entry_a2)] empty_storage)))
   \<and> map entry_id (stored_collection (save_all [(env0, entry_a), (env0, entry_a2)] empty_storage))
       = [JStr ''a'', JStr ''entry_loyw3v28_k2j3h4g5f'']"
proof -
  have f: "fresh_ids [(env0, entry_a), (env0, entry_a2)] empty_storage"
    by code_simp
  have m: "map entry_id (stored_collection (save_all [(env0, entry_a), (env0, entry_a2)] empty_storage))
       = [JStr ''a'', JStr ''entry_loyw3v28_k2j3h4g5f'']"
    by code_simp
  from save_all_unique_ids [OF f] f m show ?thesis by blast
qed

text \<open>
  C2 as stated fails on the code: a regenerated id is not compared with the collection.
  After saving an entry whose id is the one that the third save will generate, and then
  twice the entry \<open>a\<close>, two stored entries have the same id.
\<close>

theorem save_all_duplicate_counterexample:
  "validateEntry entry_g \<and> validateEntry entry_a
   \<and> map entry_id (stored_collection (save_all [(env0, entry_g), (env0, entry_a), (env0, entry_a)] empty_storage))
       = [JStr ''entry_loyw3v28_k2j3h4g5f'', JStr ''a'', JStr ''entry_loyw3v28_k2j3h4g5f'']
   \<and> \<not> distinct (map entry_id
         (stored_collection (save_all [(env0, entry_g), (env0, entry_a), (env0, entry_a)] empty_storage)))"
  by code_simp

lemma map_fst_assign:
  "map fst (assign ps k v) = (if k \<in> fst ` set ps then map fst ps else map fst ps @ [k])"
  by (induction ps) auto

lemma distinct_keys_set_prop: "distinct_keys e \<Longrightarrow> distinct_keys (set_prop e k v)"
  by (cases e) (simp_all add: distinct_keys_def map_fst_assign)

lemma numbers_finite_set_id:
  assumes "numbers_finite e"
  shows "numbers_finite (set_prop e ''id'' v)"
proof (cases e)
  case (JObj ps)
  with assms show ?thesis
    by (simp add: numbers_finite_def finite_field_def get_prop_set_prop
        del: get_prop.simps set_prop.simps)
qed (use assms in simp_all)

text \<open>
  C3, as the code has it. When the entries of the collection are values that JSON prints
  back as they are, and a valid entry's id is in the collection, \<open>save\<close> writes the
  entries read followed by a new entry whose id is the regenerated one,
  \<^verbatim>\<open>entry_<time in base 36>_<nine digits of the random number>\<close>; the entries read, the one
  with the requested id among them, stay as they were. When the entry's numbers are finite,
  \<open>save\<close> returns true and \<open>list()\<close> then holds the old entries and the new one.
\<close>

theorem saveEntry_collision:
  assumes v: "validateEntry e"
    and stored: "list_all is_json (list_entries s)"
    and c: "list_ex (same_id (get_prop e ''id'')) (list_entries s)"
  shows "\<exists>b s' stored.
      saveEntry reliable ev e s = (Inr b, set_prop e ''id'' (JStr (regenerated_id ev)), s')
      \<and> stored = to_json (set_prop e ''id'' (JStr (regenerated_id ev)))
      \<and> items s' ENTRIES = Some (Doc (JArr (list_entries s @ [stored])))
      \<and> get_prop stored ''id'' = JStr (regenerated_id ev)
      \<and> (distinct_keys e \<and> numbers_finite e \<longrightarrow>
            b \<and> mset (list_entries s') = add_mset stored (mset (list_entries s)))"
proof -
  let ?L = "list_entries s"
  let ?e' = "set_prop e ''id'' (JStr (regenerated_id ev))"
  let ?s' = "written s (?L @ [?e'])"
  from validateEntry_obj [OF v] obtain ps where ps: "e = JObj ps" by blast
  have v': "validateEntry ?e'" using v by (rule validateEntry_set_id)
  have ob: "\<exists>qs. ?e' = JObj qs" using ps by simp
  have i': "get_prop ?e' ''id'' = JStr (regenerated_id ev)"
    unfolding ps get_prop_set_prop by simp
  have ij: "get_prop (to_json ?e') ''id'' = JStr (regenerated_id ev)"
    using id_to_json [OF v'] i' by simp
  have Lv: "\<forall>x \<in> set ?L. is_json x \<and> validateEntry x"
    using stored by (rule list_entries_json)
  have save: "saveEntry reliable ev e s
      = (Inr (list_ex (same_id (JStr (regenerated_id ev))) (list_entries ?s')), ?e', ?s')"
    using c i' by (simp add: saveEntry_reliable_valid [OF v] Let_def)
  have raw: "items ?s' ENTRIES = Some (Doc (JArr (?L @ [to_json ?e'])))"
    using Lv ob by (simp add: written_def stringify_append)
  have fin: "list_ex (same_id (JStr (regenerated_id ev))) (list_entries ?s')
      \<and> mset (list_entries ?s') = add_mset (to_json ?e') (mset ?L)"
    if "distinct_keys e" "numbers_finite e"
  proof -
    have "validateEntry (to_json ?e')"
      using v' that by (intro validateEntry_to_json distinct_keys_set_prop numbers_finite_set_id)
    with Lv ob have L': "list_entries ?s' = array_sort compareFn (?L @ [to_json ?e'])"
      by (simp add: list_entries_written)
    then have "to_json ?e' \<in> set (list_entries ?s')"
      by (simp add: set_array_sort)
    moreover have "same_id (JStr (regenerated_id ev)) (to_json ?e')"
      using ij by (simp add: same_id_string)
    ultimately have "list_ex (same_id (JStr (regenerated_id ev))) (list_entries ?s')"
      unfolding list_ex_iff by blast
    moreover have "mset (list_entries ?s') = add_mset (to_json ?e') (mset ?L)"
      unfolding L' by (simp add: mset_array_sort)
    ultimately show ?thesis by blast
  qed
  from save raw ij fin show ?thesis by blast
qed

theorem saveEntry_collision_witness:
  "validateEntry entry_a2
   \<and> list_all is_json (list_entries (storage_of (Doc (JArr [entry_a]))))
   \<and> list_ex (same_id (get_prop entry_a2 ''id'')) (list_entries (storage_of (Doc (JArr [entry_a]))))
   \<and> distinct_keys entry_a2 \<and> numbers_finite entry_a2
   \<and> (\<exists>s'. saveEntry reliable env0 entry_a2 (storage_of (Doc (JArr [entry_a])))
         = (Inr True, set_prop entry_a2 ''id'' (JStr ''entry_loyw3v28_k2j3h4g5f''), s')
        \<and> mset (list_entries s')
         = {#set_prop entry_a2 ''id'' (JStr ''entry_loyw3v28_k2j3h4g5f''), entry_a#})"
proof -
  have c: "list_ex (same_id (get_prop entry_a2 ''id'')) (list_entries (storage_of (Doc (JArr [entry_a]))))"
    unfolding list_entries_storage_of_a by (simp add: same_id_def entry_a_def entry_a2_def)
  have d: "distinct_keys entry_a2"
    by (simp add: entry_a2_def distinct_keys_def)
  have n: "numbers_finite entry_a2"
    by (simp add: entry_a2_def numbers_finite_def finite_field_def)
  have j: "to_json (set_prop entry_a2 ''id'' (JStr ''entry_loyw3v28_k2j3h4g5f''))
      = set_prop entry_a2 ''id'' (JStr ''entry_loyw3v28_k2j3h4g5f'')"
    by (simp add: entry_a2_def)
  have st: "list_all is_json (list_entries (storage_of (Doc (JArr [entry_a]))))"
    unfolding list_entries_storage_of_a by (simp add: entry_a_def)
  from saveEntry_collision [OF validateEntry_entry_a2 st c, of env0] d n
  obtain s' where "saveEntry reliable env0 entry_a2 (storage_of (Doc (JArr [entry_a])))
         = (Inr True, set_prop entry_a2 ''id'' (JStr (regenerated_id env0)), s')"
    and "mset (list_entries s')
         = add_mset (to_json (set_prop entry_a2 ''id'' (JStr (regenerated_id env0))))
             (mset (list_entries (storage_of (Doc (JArr [entry_a])))))"
    by auto
  then have "saveEntry reliable env0 entry_a2 (storage_of (Doc (JArr [entry_a])))
         = (Inr True, set_prop entry_a2 ''id'' (JStr ''entry_loyw3v28_k2j3h4g5f''), s')
        \<and> mset (list_entries s')
         = {#set_prop entry_a2 ''id'' (JStr ''entry_loyw3v28_k2j3h4g5f''), entry_a#}"
    unfolding regenerated_id_env0 list_entries_storage_of_a j by simp
  with validateEntry_entry_a2 st c d n show ?thesis by blast
qed

text \<open>
  C3 as stated fails on the code, in two ways. When the clock and the random source give
  the requested id again, the new entry is stored under the requested id. And when the
  stored entry with that id holds an infinity, \<open>save\<close> writes it back with \<open>null\<close> in its
  place and returns false, and \<open>list()\<close> is empty from then on.
\<close>

theorem saveEntry_collision_counterexample:
  "validateEntry entry_g
   \<and> list_entries (storage_of (Doc (JArr [entry_g]))) = [entry_g]
   \<and> stored_collection (snd (snd (saveEntry reliable env0 entry_g (storage_of (Doc (JArr [entry_g]))))))
       = [entry_g, entry_g]
   \<and> get_prop entry_g ''id'' = JStr ''entry_loyw3v28_k2j3h4g5f''
   \<and> validateEntry entry_a2
   \<and> list_entries (storage_of (Doc (JArr [entry_inf]))) = [entry_inf]
   \<and> list_ex (same_id (get_prop entry_a2 ''id'')) [entry_inf]
   \<and> fst (saveEntry reliable env0 entry_a2 (storage_of (Doc (JArr [entry_inf])))) = Inr False
   \<and> items (snd (snd (saveEntry reliable env0 entry_a2 (storage_of (Doc (JArr [entry_inf])))))) ENTRIES
       = Some (Doc (JArr [set_prop entry_a ''latitude'' JNull,
                          set_prop entry_a2 ''id'' (JStr ''entry_loyw3v28_k2j3h4g5f'')]))
   \<and> set_prop entry_a ''latitude'' JNull \<noteq> entry_inf
   \<and> list_entries (snd (snd (saveEntry reliable env0 entry_a2 (storage_of (Doc (JArr [entry_inf])))))) = []"
  by code_simp

text \<open>
  C10. For every backend: when \<open>save\<close> finds the id of a valid entry among the entries
  read, the caller's object has the regenerated id after the call, whatever happens to the
  write; and when the write and the second read succeed, the result is whether the
  regenerated id is among the entries read back.
\<close>

theorem saveEntry_mutates_argument:
  assumes v: "validateEntry e"
    and g: "getEntries B s = (Inr existing, s1)"
    and c: "list_ex (same_id (get_prop e ''id'')) existing"
  shows "fst (snd (saveEntry B ev e s)) = set_prop e ''id'' (JStr (regenerated_id ev))
    \<and> get_prop (fst (snd (saveEntry B ev e s))) ''id'' = JStr (regenerated_id ev)
    \<and> (\<forall>u s2 current s3.
          setItem B ENTRIES
            (JSON_stringify (JArr (existing @ [set_prop e ''id'' (JStr (regenerated_id ev))]))) s1
            = (Inr u, s2)
          \<and> getEntries B s2 = (Inr current, s3)
          \<longrightarrow> fst (saveEntry B ev e s)
                = Inr (list_ex (same_id (JStr (regenerated_id ev))) current))"
proof -
  let ?e' = "set_prop e ''id'' (JStr (regenerated_id ev))"
  from validateEntry_obj [OF v] obtain ps where ps: "e = JObj ps" by blast
  have i': "get_prop ?e' ''id'' = JStr (regenerated_id ev)"
    unfolding ps get_prop_set_prop by simp
  have a: "fst (snd (saveEntry B ev e s)) = ?e'"
    using v g c
    by (simp add: saveEntry_def saveEntry_try_def catch_with_def Let_def
        split: prod.splits sum.splits)
  have b: "fst (saveEntry B ev e s) = Inr (list_ex (same_id (JStr (regenerated_id ev))) current)"
    if "setItem B ENTRIES (JSON_stringify (JArr (existing @ [?e']))) s1 = (Inr u, s2)"
      and "getEntries B s2 = (Inr current, s3)" for u s2 current s3
    using v g c that i'
    by (simp add: saveEntry_def saveEntry_try_def catch_with_def Let_def)
  from a b i' show ?thesis by simp
qed

lemma getEntries_forgetful: "getEntries forgetful s = (Inr (list_entries s), s)"
  using getEntries_reliable [of s]
  by (simp add: getEntries_def getEntries_try_def forgetful_def reliable_def)

theorem saveEntry_mutates_argument_witness:
  "validateEntry entry_a2
   \<and> getEntries forgetful (storage_of (Doc (JArr [entry_a])))
       = (Inr [entry_a], storage_of (Doc (JArr [entry_a])))
   \<and> list_ex (same_id (get_prop entry_a2 ''id'')) [entry_a]
   \<and> fst (snd (saveEntry forgetful env0 entry_a2 (storage_of (Doc (JArr [entry_a])))))
       = set_prop entry_a2 ''id'' (JStr ''entry_loyw3v28_k2j3h4g5f'')
   \<and> list_ex (same_id (JStr ''a'')) [entry_a]
   \<and> \<not> list_ex (same_id (JStr ''entry_loyw3v28_k2j3h4g5f'')) [entry_a]
   \<and> fst (saveEntry forgetful env0 entry_a2 (storage_of (Doc (JArr [entry_a])))) = Inr False"
proof -
  let ?s = "storage_of (Doc (JArr [entry_a]))"
  have g: "getEntries forgetful ?s = (Inr [entry_a], ?s)"
    by (simp add: getEntries_forgetful list_entries_storage_of_a)
  have c: "list_ex (same_id (get_prop entry_a2 ''id'')) [entry_a]"
    by (simp add: same_id_def entry_a_def entry_a2_def)
  have w: "setItem forgetful ENTRIES
      (JSON_stringify (JArr ([entry_a] @ [set_prop entry_a2 ''id'' (JStr (regenerated_id env0))]))) ?s
      = (Inr (), ?s)"
    by (simp add: forgetful_def)
  have p: "list_ex (same_id (JStr ''a'')) [entry_a]"
    by (simp add: same_id_def entry_a_def)
  have q: "\<not> list_ex (same_id (JStr ''entry_loyw3v28_k2j3h4g5f'')) [entry_a]"
    by (simp add: same_id_def entry_a_def)
  from saveEntry_mutates_argument [OF validateEntry_entry_a2 g c, of env0] w g
  have "fst (snd (saveEntry forgetful env0 entry_a2 ?s))
        = set_prop entry_a2 ''id'' (JStr (regenerated_id env0))
      \<and> fst (saveEntry forgetful env0 entry_a2 ?s)
        = Inr (list_ex (same_id (JStr (regenerated_id env0))) [entry_a])"
    by blast
  with validateEntry_entry_a2 g c p q show ?thesis
    unfolding regenerated_id_env0 by simp
qed

end
